theory Spec2Isabelle
  imports
    Complex_Main
    "HOL-Library.Multiset"
    "HOL-Library.List_Lexorder"
begin

chapter \<open>The habit tracker dashboard (\<open>app.py\<close>)\<close>

text \<open>
  The program is a single script: three thin clients of remote services
  (\<open>get_weather\<close>, \<open>get_dog_image\<close>, \<open>generate_report\<close>), a rolling history of daily
  records kept in the session state (\<open>_upsert_today\<close>), and the computation of the
  completion rate of the day. Each of them is embedded below as a function of its
  arguments and of what it reads from its environment (the clock, the replies of the
  remote services); the definitions come first, the properties after them.
\<close>

section \<open>Strings\<close>

text \<open>
  A Python \<open>str\<close> is a sequence of code points, compared code point by code point
  (a proper prefix is smaller). It is embedded as the list of its code points, ordered
  lexicographically; \<open>pystr\<close> turns a literal of this text into such a list.
\<close>

type_synonym pystr = "nat list"

definition pystr :: "string \<Rightarrow> pystr" where
  "pystr s = map of_char s"

text \<open>
  \<open>str.strip()\<close> removes the white space at both ends of a string: the code points
  Python classifies as white space are U+0009 to U+000D, U+001C to U+0020, U+0085,
  U+00A0, U+1680, U+2000 to U+200A, U+2028, U+2029, U+202F, U+205F and U+3000.
\<close>

definition is_space :: "nat \<Rightarrow> bool" where
  "is_space c \<longleftrightarrow>
     (9 \<le> c \<and> c \<le> 13) \<or> (28 \<le> c \<and> c \<le> 32) \<or> c = 133 \<or> c = 160 \<or> c = 5760 \<or>
     (8192 \<le> c \<and> c \<le> 8202) \<or> c = 8232 \<or> c = 8233 \<or> c = 8239 \<or> c = 8287 \<or> c = 12288"

definition strip :: "pystr \<Rightarrow> pystr" where
  "strip s = rev (dropWhile is_space (rev (dropWhile is_space s)))"

text \<open>\<^verbatim>\<open>s.replace("-", " ")\<close>: every hyphen (code point 45) becomes a space (32).\<close>

definition replace_hyphens :: "pystr \<Rightarrow> pystr" where
  "replace_hyphens s = map (\<lambda>c. if c = 45 then 32 else c) s"

section \<open>The rolling history: definitions\<close>

text \<open>
  A record of the history is the dictionary
  \<^verbatim>\<open>{"date": today_str, "rate": int(rate), "completed": int(completed), "mood": int(mood)}\<close>;
  every record the program builds has these four keys. The date is the string
  \<^verbatim>\<open>strftime("%Y-%m-%d")\<close> of a calendar day.
\<close>

record daily_record =
  date :: pystr
  rate :: int
  completed :: int
  mood :: int

text \<open>
  \<^verbatim>\<open>idx = next((i for i, r in enumerate(hist) if r["date"] == today_str), None)\<close>:
  the index of the first record of the given date, if there is one.
\<close>

fun find_today :: "pystr \<Rightarrow> daily_record list \<Rightarrow> nat option" where
  "find_today today_str [] = None"
| "find_today today_str (r # rs) =
     (if date r = today_str then Some 0 else map_option Suc (find_today today_str rs))"

text \<open>
  \<^verbatim>\<open>
  def _upsert_today(rate: int, completed: int, mood: int):
      today_str = datetime.now().date().strftime("%Y-%m-%d")
      hist = st.session_state.history
      idx = next((i for i, r in enumerate(hist) if r["date"] == today_str), None)
      row = {"date": today_str, "rate": int(rate), "completed": int(completed), "mood": int(mood)}
      if idx is None:
          hist.append(row)
      else:
          hist[idx] = row
      hist_sorted = sorted(hist, key=lambda x: x["date"])
      st.session_state.history = hist_sorted[-7:]
  \<close>
  The function reads the clock and the history of the session state, and writes the
  history back. In the embedding the date read from the clock is the first argument,
  the history read is the last argument and the history written is the result. The
  three arguments are integers (the rate, a sum of Booleans and the position of a
  slider), on which \<open>int\<close> is the identity. The records are sorted by their date
  strings, whose order is that of the calendar for years of four digits.
  \<open>sorted\<close> is a stable sort, as \<open>sort_key\<close> is; the slice \<^verbatim>\<open>[-7:]\<close> keeps the last
  seven elements, and the whole list when it has fewer (the subtraction on \<open>nat\<close>
  stops at zero, as the slice's start does).
\<close>

definition upsert_today ::
    "pystr \<Rightarrow> int \<Rightarrow> int \<Rightarrow> int \<Rightarrow> daily_record list \<Rightarrow> daily_record list" where
  "upsert_today today_str r c m hist =
     (let idx = find_today today_str hist;
          row = \<lparr>date = today_str, rate = r, completed = c, mood = m\<rparr>;
          hist1 = (case idx of None \<Rightarrow> hist @ [row] | Some i \<Rightarrow> hist[i := row]);
          hist_sorted = sort_key date hist1
      in drop (length hist_sorted - 7) hist_sorted)"

text \<open>
  The first half of \<open>_upsert_today\<close> on its own: the history after the record of the
  day has been appended or written over the first record of its date, before the
  sort and the slice.
\<close>

definition put_today :: "daily_record \<Rightarrow> daily_record list \<Rightarrow> daily_record list" where
  "put_today row hist =
     (case find_today (date row) hist of
        None \<Rightarrow> hist @ [row]
      | Some idx \<Rightarrow> hist[idx := row])"

definition today_row :: "pystr \<Rightarrow> int \<Rightarrow> int \<Rightarrow> int \<Rightarrow> daily_record" where
  "today_row today_str r c m = \<lparr>date = today_str, rate = r, completed = c, mood = m\<rparr>"

text \<open>
  A session calls \<open>_upsert_today\<close> once per run of the script. A sequence of calls is a
  list of the date each call read from the clock and of its three arguments.
\<close>

fun run_upserts ::
    "(pystr \<times> int \<times> int \<times> int) list \<Rightarrow> daily_record list \<Rightarrow> daily_record list" where
  "run_upserts [] hist = hist"
| "run_upserts ((d, r, c, m) # calls) hist = run_upserts calls (upsert_today d r c m hist)"

text \<open>
  The invariant of a history built by upserts from the dates \<open>seen\<close> so far: one
  record per date, only dates that were seen, \<open>min (card seen) 7\<close> records, and every
  date seen as long as there are fewer than seven.
\<close>

definition store_inv :: "pystr set \<Rightarrow> daily_record list \<Rightarrow> bool" where
  "store_inv seen h \<longleftrightarrow>
     finite seen \<and> distinct (map date h) \<and> date ` set h \<subseteq> seen \<and>
     length h = min (card seen) 7 \<and> (length h < 7 \<longrightarrow> date ` set h = seen)"

section \<open>The completion rate: definitions\<close>

text \<open>
  \<^verbatim>\<open>
  completed_count = sum(flags)
  rate = int(round(completed_count / 5 * 100))
  \<close>
  \<open>completed_count / 5\<close> is the true division of two integers, which yields the
  double nearest to the quotient; the product with \<open>100\<close> is the double nearest to
  the product of the two doubles (\<open>100\<close> is converted exactly); \<open>round\<close> of a double
  is the nearest integer, the even one of two that are equally near; \<open>int\<close> of an
  integer is that integer. The embedding follows the machine arithmetic: a finite
  double is a pair \<open>(m, e)\<close> of integers that stands for \<open>m * 2 ^ e\<close>, and rounding
  keeps 53 significant bits, ties going to the even significand (IEEE 754 binary64,
  within the range of the normal numbers, in which every number met here lies).
\<close>

type_synonym double = "int \<times> int"

text \<open>The number of binary digits of a positive integer (\<open>int.bit_length\<close>).\<close>

function bit_length :: "int \<Rightarrow> int" where
  "bit_length n = (if n \<le> 0 then 0 else 1 + bit_length (n div 2))"
  by pat_completeness auto
termination
  by (relation "measure nat") auto

declare bit_length.simps [simp del]

text \<open>The integer nearest to \<open>n / d\<close> for \<open>0 < d\<close>, the even one on a tie.\<close>

definition div_half_even :: "int \<Rightarrow> int \<Rightarrow> int" where
  "div_half_even n d =
     (let q = n div d; r = n mod d
      in if 2 * r < d then q else if d < 2 * r then q + 1 else if even q then q else q + 1)"

text \<open>For \<open>n \<noteq> 0\<close> and \<open>0 < d\<close>, the exponent \<open>e\<close> with \<open>2 ^ e \<le> \<bar>n / d\<bar> < 2 ^ (e + 1)\<close>.\<close>

definition binade :: "int \<Rightarrow> int \<Rightarrow> int" where
  "binade n d =
     (let e = bit_length \<bar>n\<bar> - bit_length d
      in if (if 0 \<le> e then d * 2 ^ nat e \<le> \<bar>n\<bar> else d \<le> \<bar>n\<bar> * 2 ^ nat (- e))
         then e else e - 1)"

text \<open>The double nearest to \<open>n / d * 2 ^ s\<close>, for \<open>0 < d\<close>.\<close>

definition nearest_double :: "int \<Rightarrow> int \<Rightarrow> int \<Rightarrow> double" where
  "nearest_double n d s =
     (if n = 0 then (0, 0)
      else let e = binade n d
           in (if e \<le> 52 then div_half_even (n * 2 ^ nat (52 - e)) d
               else div_half_even n (d * 2 ^ nat (e - 52)),
               e - 52 + s))"

definition int_truediv :: "int \<Rightarrow> int \<Rightarrow> double" where
  "int_truediv a b = nearest_double a b 0"

definition float_mul_int :: "double \<Rightarrow> int \<Rightarrow> double" where
  "float_mul_int x k = (case x of (m, e) \<Rightarrow> nearest_double (m * k) 1 e)"

definition py_round :: "double \<Rightarrow> int" where
  "py_round x =
     (case x of (m, e) \<Rightarrow>
        if 0 \<le> e then m * 2 ^ nat e else div_half_even m (2 ^ nat (- e)))"

definition rate_of :: "int \<Rightarrow> int" where
  "rate_of completed_count = py_round (float_mul_int (int_truediv completed_count 5) 100)"

section \<open>The clients of the remote services: definitions\<close>

subsection \<open>Decoded JSON and the operations the clients apply to it\<close>

text \<open>
  \<open>r.json()\<close> returns the decoded body of a reply: \<open>None\<close>, a Boolean, an integer, a
  float, a string, a list or a dictionary with string keys. Only whether a number is
  zero matters below, so a finite float is the rational it stands for.
\<close>

datatype pyfloat = Finite rat | Infinite bool | NaN

datatype json =
    JNull
  | JBool bool
  | JInt int
  | JFloat pyfloat
  | JStr pystr
  | JList "json list"
  | JDict "(pystr \<times> json) list"

text \<open>
  The exceptions the clients can meet. All of them are subclasses of \<open>Exception\<close>,
  which is what the handlers of the clients catch.
\<close>

datatype py_exception =
    AttributeError | TypeError | KeyError | IndexError | JSONDecodeError
  | RequestException | OpenAIError

text \<open>The truth of an object in \<open>x or y\<close> and \<open>not x\<close>.\<close>

fun truthy :: "json \<Rightarrow> bool" where
  "truthy JNull = False"
| "truthy (JBool b) = b"
| "truthy (JInt i) = (i \<noteq> 0)"
| "truthy (JFloat f) = (f \<noteq> Finite 0)"
| "truthy (JStr s) = (s \<noteq> [])"
| "truthy (JList xs) = (xs \<noteq> [])"
| "truthy (JDict kvs) = (kvs \<noteq> [])"

definition py_or :: "json \<Rightarrow> json \<Rightarrow> json" where
  "py_or a b = (if truthy a then a else b)"

text \<open>
  \<open>x.get(k)\<close>: the entry of a dictionary, \<open>None\<close> when the key is missing; only a
  dictionary has the method.
\<close>

fun py_get :: "json \<Rightarrow> pystr \<Rightarrow> py_exception + json" where
  "py_get (JDict kvs) k = Inr (case map_of kvs k of None \<Rightarrow> JNull | Some v \<Rightarrow> v)"
| "py_get _ k = Inl AttributeError"

text \<open>
  \<open>x[0]\<close>: the first element of a list or of a string; a dictionary with string keys
  has no key \<open>0\<close>; the other objects cannot be subscripted.
\<close>

fun py_first :: "json \<Rightarrow> py_exception + json" where
  "py_first (JList []) = Inl IndexError"
| "py_first (JList (x # xs)) = Inr x"
| "py_first (JStr []) = Inl IndexError"
| "py_first (JStr (c # cs)) = Inr (JStr [c])"
| "py_first (JDict kvs) = Inl KeyError"
| "py_first _ = Inl TypeError"

text \<open>
  A statement that raises ends the \<open>try\<close> block; \<open>bind\<close> sequences two steps of a
  block that way. \<open>except Exception: return None\<close> turns whatever exception the block
  raised into the result \<open>None\<close>.
\<close>

definition bind :: "'e + 'a \<Rightarrow> ('a \<Rightarrow> 'e + 'b) \<Rightarrow> 'e + 'b" where
  "bind x f = (case x of Inl e \<Rightarrow> Inl e | Inr v \<Rightarrow> f v)"

definition except_none :: "'e + 'a option \<Rightarrow> 'a option" where
  "except_none x = (case x of Inl e \<Rightarrow> None | Inr v \<Rightarrow> v)"

subsection \<open>The network\<close>

text \<open>
  \<open>requests.get(url, params=params, timeout=10)\<close> either raises or returns a reply
  with a status code and a body, whose decoding \<open>r.json()\<close> either raises (the body
  is \<open>None\<close> below) or returns an object. The network is a function from the request
  to what comes back; a client returns its result together with the list of the
  requests it issued.
\<close>

record http_request =
  req_url :: pystr
  req_params :: "(pystr \<times> pystr) list"
  req_timeout :: int

datatype http_reply =
    Raised
  | Response (status_code: int) (json_body: "json option")

subsection \<open>The weather client\<close>

text \<open>
  \<^verbatim>\<open>
  def get_weather(city: str, api_key: str):
      if not api_key:
          return None
      try:
          url = "https://api.openweathermap.org/data/2.5/weather"
          params = {"q": city, "appid": api_key, "units": "metric", "lang": "kr"}
          r = requests.get(url, params=params, timeout=10)
          if r.status_code != 200:
              return None
          data = r.json()
          weather_desc = (data.get("weather") or [{}])[0].get("description")
          main = data.get("main") or {}
          temp = main.get("temp")
          feels_like = main.get("feels_like")
          humidity = main.get("humidity")
          return {"city": city, "description": weather_desc, "temp": temp,
                  "feels_like": feels_like, "humidity": humidity}
      except Exception:
          return None
  \<close>
  The function is wrapped in \<open>st.cache_data(ttl=600)\<close>, which may return the result
  of an earlier call with the same arguments instead of running the body; the
  embedding is that of a call that runs the body.
\<close>

record weather_snapshot =
  city :: pystr
  description :: json
  temp :: json
  feels_like :: json
  humidity :: json

definition weather_request :: "pystr \<Rightarrow> pystr \<Rightarrow> http_request" where
  "weather_request c api_key =
     \<lparr>req_url = pystr ''https://api.openweathermap.org/data/2.5/weather'',
      req_params = [(pystr ''q'', c), (pystr ''appid'', api_key),
                    (pystr ''units'', pystr ''metric''), (pystr ''lang'', pystr ''kr'')],
      req_timeout = 10\<rparr>"

definition weather_try :: "pystr \<Rightarrow> http_reply \<Rightarrow> py_exception + weather_snapshot option" where
  "weather_try c reply =
     (case reply of
        Raised \<Rightarrow> Inl RequestException
      | Response status body \<Rightarrow>
          if status \<noteq> 200 then Inr None
          else (case body of
                  None \<Rightarrow> Inl JSONDecodeError
                | Some data \<Rightarrow>
                    bind (py_get data (pystr ''weather'')) (\<lambda>w.
                    bind (py_first (py_or w (JList [JDict []]))) (\<lambda>w0.
                    bind (py_get w0 (pystr ''description'')) (\<lambda>weather_desc.
                    bind (py_get data (pystr ''main'')) (\<lambda>m.
                    let main = py_or m (JDict []) in
                    bind (py_get main (pystr ''temp'')) (\<lambda>t.
                    bind (py_get main (pystr ''feels_like'')) (\<lambda>fl.
                    bind (py_get main (pystr ''humidity'')) (\<lambda>hu.
                    Inr (Some \<lparr>city = c, description = weather_desc, temp = t,
                               feels_like = fl, humidity = hu\<rparr>))))))))))"

definition get_weather ::
    "(http_request \<Rightarrow> http_reply) \<Rightarrow> pystr \<Rightarrow> pystr \<Rightarrow>
     weather_snapshot option \<times> http_request list" where
  "get_weather net c api_key =
     (if api_key = [] then (None, [])
      else (except_none (weather_try c (net (weather_request c api_key))),
            [weather_request c api_key]))"

subsection \<open>The image client\<close>

text \<open>
  \<^verbatim>\<open>
  def get_dog_image():
      try:
          url = "https://dog.ceo/api/breeds/image/random"
          r = requests.get(url, timeout=10)
          if r.status_code != 200:
              return None
          data = r.json()
          if data.get("status") != "success":
              return None
          img_url = data.get("message")
          if not img_url:
              return None
          breed = None
          m = re.search(r"/breeds/([^/]+)/", img_url)
          if m:
              breed = m.group(1).replace("-", " ").strip()
          return {"url": img_url, "breed": breed or "unknown"}
      except Exception:
          return None
  \<close>
  \<open>re.search\<close> tries the positions of the string from left to right. At a position
  the pattern matches when the string goes on with \<open>/breeds/\<close>, then with one or more
  code points other than \<open>/\<close> (code point 47), as many as there are, then with \<open>/\<close>;
  the group is that run of code points. \<open>re.search\<close> raises \<open>TypeError\<close> on an object
  that is not a string.
\<close>

definition match_breeds_here :: "pystr \<Rightarrow> pystr option" where
  "match_breeds_here s =
     (if take 8 s = pystr ''/breeds/'' then
        let label = takeWhile (\<lambda>c. c \<noteq> 47) (drop 8 s);
            rest = dropWhile (\<lambda>c. c \<noteq> 47) (drop 8 s)
        in if label \<noteq> [] \<and> rest \<noteq> [] then Some label else None
      else None)"

fun search_breeds :: "pystr \<Rightarrow> pystr option" where
  "search_breeds [] = None"
| "search_breeds (c # cs) =
     (case match_breeds_here (c # cs) of
        Some label \<Rightarrow> Some label
      | None \<Rightarrow> search_breeds cs)"

definition breed_of_url :: "pystr \<Rightarrow> pystr" where
  "breed_of_url img_url =
     (let breed = (case search_breeds img_url of
                     None \<Rightarrow> None
                   | Some label \<Rightarrow> Some (strip (replace_hyphens label)))
      in case breed of
           None \<Rightarrow> pystr ''unknown''
         | Some b \<Rightarrow> if b = [] then pystr ''unknown'' else b)"

record dog_image =
  url :: pystr
  breed :: pystr

definition dog_request :: http_request where
  "dog_request =
     \<lparr>req_url = pystr ''https://dog.ceo/api/breeds/image/random'',
      req_params = [], req_timeout = 10\<rparr>"

definition dog_try :: "http_reply \<Rightarrow> py_exception + dog_image option" where
  "dog_try reply =
     (case reply of
        Raised \<Rightarrow> Inl RequestException
      | Response status body \<Rightarrow>
          if status \<noteq> 200 then Inr None
          else (case body of
                  None \<Rightarrow> Inl JSONDecodeError
                | Some data \<Rightarrow>
                    bind (py_get data (pystr ''status'')) (\<lambda>st.
                    if st \<noteq> JStr (pystr ''success'') then Inr None
                    else
                    bind (py_get data (pystr ''message'')) (\<lambda>img_url.
                    if \<not> truthy img_url then Inr None
                    else (case img_url of
                            JStr u \<Rightarrow> Inr (Some \<lparr>url = u, breed = breed_of_url u\<rparr>)
                          | _ \<Rightarrow> Inl TypeError)))))"

definition get_dog_image ::
    "(http_request \<Rightarrow> http_reply) \<Rightarrow> dog_image option \<times> http_request list" where
  "get_dog_image net = (except_none (dog_try (net dog_request)), [dog_request])"

text \<open>
  What the specification calls a \<open>/breeds/<label>/\<close> path segment of a URL: the URL
  is \<open>before\<close>, then \<open>/breeds/\<close>, then a label that is not empty and has no \<open>/\<close> in it,
  then \<open>/\<close>, then \<open>after\<close>.
\<close>

definition breeds_segment :: "pystr \<Rightarrow> pystr \<Rightarrow> pystr \<Rightarrow> pystr \<Rightarrow> bool" where
  "breeds_segment img_url before label after \<longleftrightarrow>
     img_url = before @ pystr ''/breeds/'' @ label @ [47] @ after \<and>
     label \<noteq> [] \<and> 47 \<notin> set label"

subsection \<open>The report generator\<close>

text \<open>
  \<^verbatim>\<open>
  def generate_report(openai_api_key, coach_style, date_str, city, mood,
                      habits_checked, weather, dog):
      if not openai_api_key:
          return None
      system = _coach_system_prompt(coach_style)
      ...
      user_msg = f"""...""".strip()
      try:
          client = OpenAI(api_key=openai_api_key)
          resp = client.responses.create(
              model="gpt-5-mini", instructions=system, input=user_msg)
          return (resp.output_text or "").strip() or None
      except Exception:
          return None
  \<close>
  The instructions of the three coaches and the message composed from the data of the
  day are fixed texts and string formatting of values that can all be formatted; no
  property below depends on them, and the two functions that produce them are
  arguments of the embedding. The service is a function from the request to what
  comes back: the call raises, or returns a reply whose \<open>output_text\<close> is a string or
  \<open>None\<close>.
\<close>

record llm_request =
  llm_api_key :: pystr
  llm_model :: pystr
  llm_instructions :: pystr
  llm_input :: pystr

datatype llm_reply = LlmRaised | LlmResponse (output_text: "pystr option")

type_synonym user_msg_builder =
  "pystr \<Rightarrow> pystr \<Rightarrow> int \<Rightarrow> pystr list \<Rightarrow> weather_snapshot option \<Rightarrow> dog_image option \<Rightarrow> pystr"

definition report_request ::
    "(pystr \<Rightarrow> pystr) \<Rightarrow> user_msg_builder \<Rightarrow> pystr \<Rightarrow> pystr \<Rightarrow> pystr \<Rightarrow> pystr \<Rightarrow> int \<Rightarrow>
     pystr list \<Rightarrow> weather_snapshot option \<Rightarrow> dog_image option \<Rightarrow> llm_request" where
  "report_request coach_system_prompt user_msg openai_api_key coach_style date_str c mood_score
       habits_checked weather dog =
     \<lparr>llm_api_key = openai_api_key, llm_model = pystr ''gpt-5-mini'',
      llm_instructions = coach_system_prompt coach_style,
      llm_input = user_msg date_str c mood_score habits_checked weather dog\<rparr>"

text \<open>\<^verbatim>\<open>resp.output_text or ""\<close>\<close>

definition str_or_empty :: "pystr option \<Rightarrow> pystr" where
  "str_or_empty out = (case out of None \<Rightarrow> [] | Some t \<Rightarrow> if t \<noteq> [] then t else [])"

definition report_try :: "llm_reply \<Rightarrow> py_exception + pystr option" where
  "report_try reply =
     (case reply of
        LlmRaised \<Rightarrow> Inl OpenAIError
      | LlmResponse out \<Rightarrow>
          (let s = strip (str_or_empty out) in Inr (if s \<noteq> [] then Some s else None)))"

definition generate_report ::
    "(llm_request \<Rightarrow> llm_reply) \<Rightarrow> (pystr \<Rightarrow> pystr) \<Rightarrow> user_msg_builder \<Rightarrow> pystr \<Rightarrow> pystr \<Rightarrow>
     pystr \<Rightarrow> pystr \<Rightarrow> int \<Rightarrow> pystr list \<Rightarrow> weather_snapshot option \<Rightarrow> dog_image option \<Rightarrow>
     pystr option \<times> llm_request list" where
  "generate_report llm coach_system_prompt user_msg openai_api_key coach_style date_str c
       mood_score habits_checked weather dog =
     (if openai_api_key = [] then (None, [])
      else let request = report_request coach_system_prompt user_msg openai_api_key coach_style
                           date_str c mood_score habits_checked weather dog
           in (except_none (report_try (llm request)), [request]))"

section \<open>The rolling history: properties\<close>

subsection \<open>Finding and writing the record of the day\<close>

lemma find_today_None: "find_today t h = None \<longleftrightarrow> t \<notin> date ` set h"
  by (induction h) auto

lemma find_today_Some:
  "find_today t h = Some i \<Longrightarrow> i < length h \<and> date (h ! i) = t"
proof (induction h arbitrary: i)
  case Nil
  then show ?case by simp
next
  case (Cons r rs)
  then show ?case by (auto split: if_splits)
qed

lemma date_today_row [simp]: "date (today_row t r c m) = t"
  by (simp add: today_row_def)

lemma upsert_today_alt:
  "upsert_today t r c m h =
     drop (length (put_today (today_row t r c m) h) - 7)
          (sort_key date (put_today (today_row t r c m) h))"
  by (simp add: upsert_today_def put_today_def today_row_def Let_def)

lemma map_date_put_today:
  "map date (put_today row h) =
     (if date row \<in> date ` set h then map date h else map date h @ [date row])"
proof (cases "find_today (date row) h")
  case None
  moreover from None have "date row \<notin> date ` set h" by (simp add: find_today_None)
  ultimately show ?thesis by (simp add: put_today_def)
next
  case (Some i)
  then have i: "i < length h" "date (h ! i) = date row"
    using find_today_Some by blast+
  have "date row \<in> date ` set h" using i by (metis imageI nth_mem)
  moreover have "(map date h)[i := date row] = map date h"
    using i by (metis list_update_id nth_map)
  ultimately show ?thesis using Some by (simp add: put_today_def map_update)
qed

lemma length_put_today:
  "length (put_today row h) = (if date row \<in> date ` set h then length h else Suc (length h))"
  using arg_cong [OF map_date_put_today, of length row h] by (simp split: if_splits)

lemma filter_update_irrelevant:
  "i < length xs \<Longrightarrow> \<not> P (xs ! i) \<Longrightarrow> \<not> P y \<Longrightarrow> filter P (xs[i := y]) = filter P xs"
proof (induction xs arbitrary: i)
  case Nil
  then show ?case by simp
next
  case (Cons x xs)
  then show ?case by (cases i) auto
qed

lemma filter_put_today:
  assumes "\<not> P row" and "\<And>r. date r = date row \<Longrightarrow> \<not> P r"
  shows "filter P (put_today row h) = filter P h"
proof (cases "find_today (date row) h")
  case None
  then show ?thesis using assms(1) by (simp add: put_today_def)
next
  case (Some i)
  then have "i < length h" "date (h ! i) = date row"
    using find_today_Some by blast+
  then show ?thesis using Some assms
    by (simp add: put_today_def filter_update_irrelevant)
qed

lemma set_put_today: "set (put_today row h) \<subseteq> insert row (set h)"
  by (auto simp: put_today_def split: option.splits dest: set_update_subset_insert [THEN subsetD])

lemma row_in_put_today: "row \<in> set (put_today row h)"
proof (cases "find_today (date row) h")
  case None
  then show ?thesis by (simp add: put_today_def)
next
  case (Some i)
  then have "i < length h" using find_today_Some by blast
  then show ?thesis using Some by (simp add: put_today_def set_update_memI)
qed

lemma distinct_put_today:
  "distinct (map date h) \<Longrightarrow> distinct (map date (put_today row h))"
  by (auto simp: map_date_put_today)

subsection \<open>Sorting and keeping the last seven\<close>

lemma distinct_map_sort_key:
  "distinct (map f (sort_key f xs)) \<longleftrightarrow> distinct (map f xs)"
proof -
  have "mset (map f (sort_key f xs)) = mset (map f xs)" by simp
  then show ?thesis by (rule mset_eq_imp_distinct_iff)
qed

lemma length_filter_sort_key:
  "length (filter P (sort_key f xs)) = length (filter P xs)"
proof -
  have "mset (filter P (sort_key f xs)) = mset (filter P xs)" by simp
  then show ?thesis by (rule mset_eq_length)
qed

lemma filter_key_singleton:
  "distinct (map f xs) \<Longrightarrow> x \<in> set xs \<Longrightarrow> filter (\<lambda>y. f y = f x) xs = [x]"
proof (induction xs)
  case Nil
  then show ?case by simp
next
  case (Cons a xs)
  show ?case
  proof (cases "a = x")
    case True
    have "f x \<notin> f ` set xs" using Cons.prems(1) True by simp
    then have "\<forall>y \<in> set xs. f y \<noteq> f x" by (metis imageI)
    then have "filter (\<lambda>y. f y = f x) xs = []"
      by (simp add: filter_empty_conv)
    then show ?thesis using True by simp
  next
    case False
    then have "x \<in> set xs" using Cons.prems(2) by simp
    moreover have "f a \<noteq> f x" using Cons.prems(1) calculation by auto
    ultimately show ?thesis using Cons by simp
  qed
qed

lemma sorted_upsert_today: "sorted (map date (upsert_today t r c m h))"
  unfolding upsert_today_alt drop_map [symmetric]
  by (simp add: sorted_wrt_drop)

lemma distinct_upsert_today:
  assumes "distinct (map date h)"
  shows "distinct (map date (upsert_today t r c m h))"
  unfolding upsert_today_alt drop_map [symmetric]
  by (intro distinct_drop) (simp add: distinct_map_sort_key distinct_put_today assms del: distinct_map)

lemma length_upsert_today:
  "length (upsert_today t r c m h) =
     min 7 (if t \<in> date ` set h then length h else Suc (length h))"
  by (simp add: upsert_today_alt length_put_today)

lemma set_upsert_today:
  "set (upsert_today t r c m h) \<subseteq> insert (today_row t r c m) (set h)"
proof -
  have "set (upsert_today t r c m h) \<subseteq> set (sort_key date (put_today (today_row t r c m) h))"
    unfolding upsert_today_alt by (rule set_drop_subset)
  also have "\<dots> \<subseteq> insert (today_row t r c m) (set h)"
    by (simp add: set_put_today)
  finally show ?thesis .
qed

lemma dates_upsert_today_subset:
  "date ` set (upsert_today t r c m h) \<subseteq> insert t (date ` set h)"
  using set_upsert_today [of t r c m h] by auto

lemma dates_upsert_today_small:
  assumes "length (put_today (today_row t r c m) h) \<le> 7"
  shows "date ` set (upsert_today t r c m h) = insert t (date ` set h)"
proof -
  have "upsert_today t r c m h = sort_key date (put_today (today_row t r c m) h)"
    using assms by (simp add: upsert_today_alt)
  then have "date ` set (upsert_today t r c m h) = set (map date (put_today (today_row t r c m) h))"
    by simp
  also have "\<dots> = insert t (date ` set h)"
    unfolding map_date_put_today by auto
  finally show ?thesis .
qed

lemma mset_filter_upsert_today:
  "mset (filter P (upsert_today t r c m h)) \<subseteq>#
   mset (filter P (put_today (today_row t r c m) h))"
proof -
  let ?s = "sort_key date (put_today (today_row t r c m) h)"
  let ?n = "length (put_today (today_row t r c m) h) - 7"
  have "mset (filter P ?s) = mset (filter P (take ?n ?s)) + mset (filter P (drop ?n ?s))"
    by (metis append_take_drop_id filter_append mset_append)
  then have "mset (filter P (drop ?n ?s)) \<subseteq># mset (filter P ?s)" by simp
  then show ?thesis by (simp add: upsert_today_alt)
qed

subsection \<open>The invariant of a history built by upserts\<close>

lemma store_inv_empty: "store_inv {} []"
  by (simp add: store_inv_def)

lemma store_inv_upsert:
  assumes "store_inv seen h"
  shows "store_inv (insert t seen) (upsert_today t r c m h)"
proof -
  from assms have fin: "finite seen" and dist: "distinct (map date h)"
    and sub: "date ` set h \<subseteq> seen" and len: "length h = min (card seen) 7"
    and small: "length h < 7 \<Longrightarrow> date ` set h = seen"
    by (auto simp: store_inv_def)
  let ?h' = "upsert_today t r c m h"
  have d': "distinct (map date ?h')" using dist by (rule distinct_upsert_today)
  have s': "date ` set ?h' \<subseteq> insert t seen"
    using dates_upsert_today_subset [of t r c m h] sub by auto
  have card_dates: "card (date ` set h) = length h"
    using dist by (metis distinct_card length_map set_map)
  show ?thesis
  proof (cases "t \<in> date ` set h")
    case True
    then have seen: "insert t seen = seen" using sub by auto
    have l': "length ?h' = length h" using True len by (simp add: length_upsert_today)
    have "length (put_today (today_row t r c m) h) \<le> 7"
      using True len by (simp add: length_put_today)
    then have "date ` set ?h' = date ` set h"
      using True by (simp add: dates_upsert_today_small insert_absorb)
    then show ?thesis using fin d' s' l' len small seen
      by (simp add: store_inv_def)
  next
    case False
    show ?thesis
    proof (cases "length h < 7")
      case True
      then have eq: "date ` set h = seen" by (rule small)
      then have "t \<notin> seen" using False by simp
      then have c': "card (insert t seen) = Suc (card seen)" using fin by simp
      have lc: "length h = card seen" using eq card_dates by simp
      have l': "length ?h' = Suc (length h)"
        using False True by (simp add: length_upsert_today)
      have "length (put_today (today_row t r c m) h) \<le> 7"
        using False True by (simp add: length_put_today)
      then have "date ` set ?h' = insert t seen"
        using eq by (simp add: dates_upsert_today_small)
      then show ?thesis using fin d' l' lc c' True
        by (simp add: store_inv_def)
    next
      case False
      then have l7: "length h = 7" using len by simp
      then have "7 \<le> card seen" using len by simp
      moreover have "card seen \<le> card (insert t seen)"
        using fin by (simp add: card_insert_le)
      ultimately have c': "min (card (insert t seen)) 7 = 7" by simp
      have l': "length ?h' = 7" using l7 by (simp add: length_upsert_today)
      show ?thesis using fin d' s' l' c' by (simp add: store_inv_def)
    qed
  qed
qed

lemma store_inv_run:
  "store_inv seen h \<Longrightarrow> store_inv (seen \<union> fst ` set calls) (run_upserts calls h)"
proof (induction calls arbitrary: seen h)
  case Nil
  then show ?case by simp
next
  case (Cons call calls)
  obtain d r c m where call: "call = (d, r, c, m)" by (cases call) auto
  from Cons.prems have "store_inv (insert d seen) (upsert_today d r c m h)"
    by (rule store_inv_upsert)
  from Cons.IH [OF this] show ?case by (simp add: call)
qed

text \<open>
  C1. Whatever the sequence of upserts applied to the empty history, with whatever
  dates in whatever order, the history afterwards holds \<open>min N 7\<close> records, \<open>N\<close> being
  the number of distinct dates of the calls, and after every call of the sequence
  (every prefix \<open>take k calls\<close>) no two records of the history share a date.
\<close>

theorem upsert_sequence_size_and_uniqueness:
  "length (run_upserts calls []) = min (card (fst ` set calls)) 7 \<and>
   (\<forall>k \<le> length calls. distinct (map date (run_upserts (take k calls) [])))"
proof -
  have inv: "store_inv (fst ` set cs) (run_upserts cs [])" for cs
    using store_inv_run [OF store_inv_empty, of cs] by simp
  have "length (run_upserts calls []) = min (card (fst ` set calls)) 7"
    using inv [of calls] by (simp add: store_inv_def)
  moreover have "distinct (map date (run_upserts (take k calls) []))" for k
    using inv [of "take k calls"] by (simp add: store_inv_def)
  ultimately show ?thesis by blast
qed

theorem upsert_sequence_witness:
  "length (run_upserts
       [(pystr ''2024-01-01'', 40, 2, 5), (pystr ''2024-01-02'', 60, 3, 6),
        (pystr ''2024-01-02'', 80, 4, 7)] []) = 2 \<and>
   distinct (map date (run_upserts (take 3
       [(pystr ''2024-01-01'', 40, 2, 5), (pystr ''2024-01-02'', 60, 3, 6),
        (pystr ''2024-01-02'', 80, 4, 7)]) []))"
proof -
  let ?calls = "[(pystr ''2024-01-01'', 40::int, 2::int, 5::int),
                 (pystr ''2024-01-02'', 60, 3, 6), (pystr ''2024-01-02'', 80, 4, 7)]"
  have n: "min (card (fst ` set ?calls)) 7 = 2" by (simp add: pystr_def)
  have k: "(3::nat) \<le> length ?calls" by simp
  from upsert_sequence_size_and_uniqueness [of ?calls] n k show ?thesis by metis
qed

text \<open>
  C2. After a call the history is sorted by date in ascending order and holds the
  seven latest of the records present once the record of the day has been appended or
  written over (all of them while they are fewer than seven): its length is
  \<open>min 7 n\<close> for \<open>n\<close> such records, so exactly seven as soon as the history held
  seven before the call, as it does in every run of the script, which seeds seven
  records before its call; the records left out (\<open>dropped\<close>) together with the ones
  kept are exactly those \<open>n\<close> records, and no record left out is later than a record
  kept.
\<close>

theorem upsert_today_retention:
  "sorted (map date (upsert_today t r c m h)) \<and>
   length (upsert_today t r c m h) =
     min 7 (length (put_today \<lparr>date = t, rate = r, completed = c, mood = m\<rparr> h)) \<and>
   (7 \<le> length h \<longrightarrow> length (upsert_today t r c m h) = 7) \<and>
   (\<exists>dropped.
      mset (put_today \<lparr>date = t, rate = r, completed = c, mood = m\<rparr> h) =
        mset dropped + mset (upsert_today t r c m h) \<and>
      (\<forall>a \<in> set dropped. \<forall>b \<in> set (upsert_today t r c m h). date a \<le> date b))"
proof -
  let ?pre = "put_today (today_row t r c m) h"
  let ?s = "sort_key date ?pre"
  let ?n = "length ?pre - 7"
  have res: "upsert_today t r c m h = drop ?n ?s" by (rule upsert_today_alt)
  have "sorted (map date (take ?n ?s @ drop ?n ?s))" by simp
  then have "sorted (map date (take ?n ?s) @ map date (drop ?n ?s))"
    by (simp only: map_append)
  then have ord: "\<forall>a \<in> set (take ?n ?s). \<forall>b \<in> set (drop ?n ?s). date a \<le> date b"
    by (simp add: sorted_append)
  have "mset ?pre = mset (take ?n ?s @ drop ?n ?s)" by simp
  then have ms: "mset ?pre = mset (take ?n ?s) + mset (drop ?n ?s)"
    by (simp only: mset_append)
  have len: "length (drop ?n ?s) = min 7 (length ?pre)" by simp
  have "\<exists>dropped. mset ?pre = mset dropped + mset (drop ?n ?s) \<and>
      (\<forall>a \<in> set dropped. \<forall>b \<in> set (drop ?n ?s). date a \<le> date b)"
    using ms ord by blast
  moreover have "7 \<le> length h \<longrightarrow> length (drop ?n ?s) = 7"
    by (simp add: length_put_today)
  ultimately show ?thesis
    using sorted_upsert_today [of t r c m h] len
    unfolding res today_row_def by simp
qed

theorem upsert_today_retention_witness:
  "sorted (map date (upsert_today (pystr ''2024-01-03'') 60 3 8
      [\<lparr>date = pystr ''2024-01-01'', rate = 40, completed = 2, mood = 5\<rparr>,
       \<lparr>date = pystr ''2024-01-02'', rate = 80, completed = 4, mood = 7\<rparr>])) \<and>
   length (upsert_today (pystr ''2024-01-03'') 60 3 8
      [\<lparr>date = pystr ''2024-01-01'', rate = 40, completed = 2, mood = 5\<rparr>,
       \<lparr>date = pystr ''2024-01-02'', rate = 80, completed = 4, mood = 7\<rparr>]) = 3 \<and>
   length (upsert_today (pystr ''2024-01-08'') 60 3 8
      [\<lparr>date = pystr ''2024-01-01'', rate = 40, completed = 2, mood = 5\<rparr>,
       \<lparr>date = pystr ''2024-01-02'', rate = 60, completed = 3, mood = 6\<rparr>,
       \<lparr>date = pystr ''2024-01-03'', rate = 80, completed = 4, mood = 7\<rparr>,
       \<lparr>date = pystr ''2024-01-04'', rate = 20, completed = 1, mood = 4\<rparr>,
       \<lparr>date = pystr ''2024-01-05'', rate = 100, completed = 5, mood = 8\<rparr>,
       \<lparr>date = pystr ''2024-01-06'', rate = 60, completed = 3, mood = 6\<rparr>,
       \<lparr>date = pystr ''2024-01-07'', rate = 0, completed = 0, mood = 5\<rparr>]) = 7"
proof -
  let ?h2 = "[\<lparr>date = pystr ''2024-01-01'', rate = 40, completed = 2, mood = 5\<rparr>,
              \<lparr>date = pystr ''2024-01-02'', rate = 80, completed = 4, mood = 7\<rparr>]"
  let ?h7 = "[\<lparr>date = pystr ''2024-01-01'', rate = 40, completed = 2, mood = 5\<rparr>,
              \<lparr>date = pystr ''2024-01-02'', rate = 60, completed = 3, mood = 6\<rparr>,
              \<lparr>date = pystr ''2024-01-03'', rate = 80, completed = 4, mood = 7\<rparr>,
              \<lparr>date = pystr ''2024-01-04'', rate = 20, completed = 1, mood = 4\<rparr>,
              \<lparr>date = pystr ''2024-01-05'', rate = 100, completed = 5, mood = 8\<rparr>,
              \<lparr>date = pystr ''2024-01-06'', rate = 60, completed = 3, mood = 6\<rparr>,
              \<lparr>date = pystr ''2024-01-07'', rate = 0, completed = 0, mood = 5\<rparr>]"
  have a: "sorted (map date (upsert_today (pystr ''2024-01-03'') 60 3 8 ?h2)) \<and>
           length (upsert_today (pystr ''2024-01-03'') 60 3 8 ?h2) = 3"
    using upsert_today_retention [of "pystr ''2024-01-03''" 60 3 8 ?h2]
    by (simp add: put_today_def pystr_def)
  have seven: "7 \<le> length ?h7" by simp
  have b: "length (upsert_today (pystr ''2024-01-08'') 60 3 8 ?h7) = 7"
    using upsert_today_retention [of "pystr ''2024-01-08''" 60 3 8 ?h7] seven by blast
  from a b show ?thesis by blast
qed

subsection \<open>Two calls on the same day\<close>

lemma today_row_kept:
  assumes dist: "distinct (map date h)"
    and later: "length (filter (\<lambda>x. t < date x) h) < 7"
  shows "today_row t r c m \<in> set (upsert_today t r c m h)"
proof (rule ccontr)
  let ?row = "today_row t r c m"
  let ?pre = "put_today ?row h"
  let ?s = "sort_key date ?pre"
  let ?n = "length ?pre - 7"
  let ?P = "\<lambda>x. t < date x"
  assume "?row \<notin> set (upsert_today t r c m h)"
  then have out: "?row \<notin> set (drop ?n ?s)" by (simp add: upsert_today_alt)
  have "?row \<in> set ?s" by (simp add: row_in_put_today)
  then have "?row \<in> set (take ?n ?s @ drop ?n ?s)" by simp
  then have inn: "?row \<in> set (take ?n ?s)" using out by (simp only: set_append) blast
  then have "take ?n ?s \<noteq> []" by auto
  then have n: "0 < ?n" by auto
  then have len7: "length (drop ?n ?s) = 7" by simp
  have "sorted (map date (take ?n ?s @ drop ?n ?s))" by simp
  then have "sorted (map date (take ?n ?s) @ map date (drop ?n ?s))" by (simp only: map_append)
  then have ord: "\<forall>b \<in> set (drop ?n ?s). t \<le> date b"
    using inn by (auto simp: sorted_append)
  have "distinct (map date ?s)"
    using dist by (simp add: distinct_map_sort_key distinct_put_today del: distinct_map)
  then have "distinct (map date (take ?n ?s) @ map date (drop ?n ?s))"
    by (metis append_take_drop_id map_append)
  then have "\<forall>b \<in> set (drop ?n ?s). date b \<noteq> t"
    using inn by (auto simp del: distinct_map)
  with ord have "\<forall>b \<in> set (drop ?n ?s). ?P b" by (metis order_less_le)
  then have "filter ?P (drop ?n ?s) = drop ?n ?s" by (simp add: filter_id_conv)
  then have "length (filter ?P (drop ?n ?s)) = 7" using len7 by simp
  moreover have "length (filter ?P ?s) =
      length (filter ?P (take ?n ?s)) + length (filter ?P (drop ?n ?s))"
    by (metis append_take_drop_id filter_append length_append)
  moreover have "length (filter ?P ?s) = length (filter ?P h)"
    by (simp add: length_filter_sort_key filter_put_today)
  ultimately show False using later by simp
qed

lemma upsert_today_present:
  assumes dist: "distinct (map date h)" and srt: "sorted (map date h)"
    and len: "length h \<le> 7" and mem: "t \<in> date ` set h"
  shows "upsert_today t r c m h = put_today (today_row t r c m) h"
proof -
  let ?pre = "put_today (today_row t r c m) h"
  have md: "map date ?pre = map date h" using mem by (simp add: map_date_put_today)
  then have "sorted (map date ?pre)" using srt by simp
  then have "sort_key date ?pre = ?pre" by (rule sort_key_id_if_sorted)
  moreover have "length ?pre \<le> 7" using len mem by (simp add: length_put_today)
  ultimately show ?thesis by (simp add: upsert_today_alt)
qed

lemma upsert_today_twice_distinct:
  assumes "distinct (map date h)"
    and "length (filter (\<lambda>x. t < date x) h) < 7"
  shows "filter (\<lambda>x. date x = t) (upsert_today t r2 c2 m2 (upsert_today t r1 c1 m1 h)) =
           [\<lparr>date = t, rate = r2, completed = c2, mood = m2\<rparr>] \<and>
         length (upsert_today t r2 c2 m2 (upsert_today t r1 c1 m1 h)) =
           length (upsert_today t r1 c1 m1 h)"
proof -
  let ?h1 = "upsert_today t r1 c1 m1 h"
  let ?row2 = "today_row t r2 c2 m2"
  have d1: "distinct (map date ?h1)" using assms(1) by (rule distinct_upsert_today)
  have s1: "sorted (map date ?h1)" by (rule sorted_upsert_today)
  have l1: "length ?h1 \<le> 7" by (simp add: length_upsert_today)
  have "today_row t r1 c1 m1 \<in> set ?h1" using assms by (rule today_row_kept)
  then have "date (today_row t r1 c1 m1) \<in> date ` set ?h1" by (rule imageI)
  then have m1: "t \<in> date ` set ?h1" by simp
  have h2: "upsert_today t r2 c2 m2 ?h1 = put_today ?row2 ?h1"
    using d1 s1 l1 m1 by (rule upsert_today_present)
  have "distinct (map date (put_today ?row2 ?h1))" using d1 by (rule distinct_put_today)
  then have "filter (\<lambda>y. date y = date ?row2) (put_today ?row2 ?h1) = [?row2]"
    using row_in_put_today by (rule filter_key_singleton)
  then have "filter (\<lambda>x. date x = t) (upsert_today t r2 c2 m2 ?h1) = [?row2]"
    using h2 by simp
  moreover have "length (upsert_today t r2 c2 m2 ?h1) = length ?h1"
    using h2 m1 by (simp add: length_put_today)
  ultimately show ?thesis by (simp add: today_row_def)
qed

lemma distinct_run_upserts: "distinct (map date (run_upserts calls []))"
  using store_inv_run [OF store_inv_empty, of calls] by (simp add: store_inv_def)

text \<open>
  C3. The current date is the date the clock gives at the call, so no record of the
  history is dated after it. On every history built by upserts (which has one record
  per date) two calls with the same current date leave exactly one record of that
  date, holding the rate, the completed count and the mood of the second call; the
  second call replaces the record and adds none.
\<close>

theorem upsert_today_twice:
  assumes "\<forall>x \<in> set (run_upserts calls []). date x \<le> t"
  shows "filter (\<lambda>x. date x = t)
           (upsert_today t r2 c2 m2 (upsert_today t r1 c1 m1 (run_upserts calls []))) =
           [\<lparr>date = t, rate = r2, completed = c2, mood = m2\<rparr>] \<and>
         length (upsert_today t r2 c2 m2 (upsert_today t r1 c1 m1 (run_upserts calls []))) =
           length (upsert_today t r1 c1 m1 (run_upserts calls []))"
proof -
  let ?h = "run_upserts calls []"
  have d: "distinct (map date ?h)" by (rule distinct_run_upserts)
  have "\<forall>x \<in> set ?h. \<not> t < date x" using assms by (simp add: not_less)
  then have "filter (\<lambda>x. t < date x) ?h = []" by (simp add: filter_empty_conv)
  then have l: "length (filter (\<lambda>x. t < date x) ?h) < 7" by simp
  from d l show ?thesis by (rule upsert_today_twice_distinct)
qed

theorem upsert_today_twice_witness:
  "filter (\<lambda>x. date x = pystr ''2024-01-02'')
     (upsert_today (pystr ''2024-01-02'') 100 5 9
       (upsert_today (pystr ''2024-01-02'') 20 1 3
         (run_upserts [(pystr ''2024-01-01'', 40, 2, 5)] []))) =
     [\<lparr>date = pystr ''2024-01-02'', rate = 100, completed = 5, mood = 9\<rparr>]"
proof -
  have h: "run_upserts [(pystr ''2024-01-01'', 40, 2, 5)] [] =
      [\<lparr>date = pystr ''2024-01-01'', rate = 40, completed = 2, mood = 5\<rparr>]"
    by (simp add: upsert_today_def)
  have "pystr ''2024-01-01'' \<le> pystr ''2024-01-02''" by (simp add: pystr_def)
  then have "\<forall>x \<in> set (run_upserts [(pystr ''2024-01-01'', 40, 2, 5)] []).
      date x \<le> pystr ''2024-01-02''"
    unfolding h by simp
  from upsert_today_twice [OF this, of 100 5 9 20 1 3] show ?thesis by blast
qed

subsection \<open>The records of the other days\<close>

text \<open>
  C9. A call leaves the records of the other dates as they are or drops them: the
  records of the result whose date is not the current date are, counted with their
  multiplicity, among the records of the history whose date is not the current date,
  field for field. Every record of the result is a record of the history or the
  record built from the arguments of the call.
\<close>

theorem upsert_today_frame:
  "mset (filter (\<lambda>x. date x \<noteq> t) (upsert_today t r c m h)) \<subseteq>#
     mset (filter (\<lambda>x. date x \<noteq> t) h) \<and>
   set (upsert_today t r c m h) \<subseteq>
     insert \<lparr>date = t, rate = r, completed = c, mood = m\<rparr> (set h)"
proof -
  have "filter (\<lambda>x. date x \<noteq> t) (put_today (today_row t r c m) h) = filter (\<lambda>x. date x \<noteq> t) h"
    by (rule filter_put_today) simp_all
  then have "mset (filter (\<lambda>x. date x \<noteq> t) (upsert_today t r c m h)) \<subseteq>#
     mset (filter (\<lambda>x. date x \<noteq> t) h)"
    using mset_filter_upsert_today [of "\<lambda>x. date x \<noteq> t" t r c m h] by simp
  moreover have "set (upsert_today t r c m h) \<subseteq>
     insert \<lparr>date = t, rate = r, completed = c, mood = m\<rparr> (set h)"
    using set_upsert_today [of t r c m h] by (simp add: today_row_def)
  ultimately show ?thesis by blast
qed

section \<open>The completion rate: properties\<close>

subsection \<open>The rounding of the embedding\<close>

text \<open>
  \<open>div_half_even\<close> returns an integer nearest to the quotient, \<open>bit_length\<close> counts
  the binary digits, \<open>binade\<close> brackets the quotient between two powers of two, and
  \<open>nearest_double\<close> returns a significand of 53 bits (\<open>2 ^ 53\<close> after a carry) whose
  distance to the number rounded is at most half a unit in the last place.
\<close>

lemma div_half_even_nearest:
  assumes "0 < d"
  shows "2 * \<bar>n - d * div_half_even n d\<bar> \<le> d"
proof -
  define q where "q = n div d"
  define r where "r = n mod d"
  have r: "0 \<le> r" "r < d" using assms by (simp_all add: r_def)
  have a: "n - d * q = r" unfolding q_def r_def by (simp add: minus_mult_div_eq_mod)
  have b: "n - d * (q + 1) = r - d"
    using a by (simp add: algebra_simps)
  have c: "div_half_even n d =
      (if 2 * r < d then q else if d < 2 * r then q + 1 else if even q then q else q + 1)"
    by (simp add: div_half_even_def q_def r_def Let_def)
  consider "div_half_even n d = q" "2 * r \<le> d" | "div_half_even n d = q + 1" "d \<le> 2 * r"
    unfolding c by (cases "2 * r < d"; cases "d < 2 * r"; cases "even q") auto
  then show ?thesis
  proof cases
    case 1
    then show ?thesis using a r by simp
  next
    case 2
    then show ?thesis using b r by simp
  qed
qed


lemma bit_length_bounds:
  "0 < n \<Longrightarrow> 1 \<le> bit_length n \<and> 2 ^ nat (bit_length n - 1) \<le> n \<and> n < 2 ^ nat (bit_length n)"
proof (induction n rule: bit_length.induct)
  case (1 n)
  define m where "m = n div 2"
  have bl: "bit_length n = 1 + bit_length m"
    using "1.prems" by (simp add: bit_length.simps [of n] m_def)
  show ?case
  proof (cases "m = 0")
    case True
    then have "n = 1" using "1.prems" unfolding m_def by linarith
    moreover have "bit_length m = 0" using True by (simp add: bit_length.simps [of 0])
    ultimately show ?thesis using bl by simp
  next
    case False
    then have pos: "0 < m" using "1.prems" unfolding m_def by linarith
    have "\<not> n \<le> 0" using "1.prems" by simp
    from "1.IH" [OF this] pos have
      one: "1 \<le> bit_length m" and
      lo: "2 ^ nat (bit_length m - 1) \<le> m" and
      hi: "m < 2 ^ nat (bit_length m)"
      unfolding m_def by simp_all
    define k where "k = nat (bit_length m - 1)"
    have k1: "nat (bit_length m) = Suc k" using one by (simp add: k_def)
    have k2: "nat (bit_length n - 1) = Suc k" using bl k1 by simp
    have k3: "nat (bit_length n) = Suc (Suc k)" using bl one k1 by simp
    have n2: "2 * m \<le> n" "n < 2 * m + 2" unfolding m_def by linarith+
    have "(2::int) ^ Suc k \<le> n" using lo n2(1) by (simp add: k_def)
    moreover have "n < (2::int) ^ Suc (Suc k)" using hi n2(2) k1 by simp
    ultimately show ?thesis using bl one k2 k3 by simp
  qed
qed


lemma bit_length_real:
  assumes "0 < x"
  shows "2 powi (bit_length x - 1) \<le> real_of_int x" and "real_of_int x < 2 powi bit_length x"
proof -
  from bit_length_bounds [OF assms] have one: "1 \<le> bit_length x"
    and lo: "2 ^ nat (bit_length x - 1) \<le> x" and hi: "x < 2 ^ nat (bit_length x)"
    by simp_all
  have "real_of_int (2 ^ nat (bit_length x - 1)) \<le> real_of_int x"
    using lo by (simp only: of_int_le_iff)
  then show "2 powi (bit_length x - 1) \<le> real_of_int x"
    using one by (simp add: power_int_nonneg_exp)
  have "real_of_int x < real_of_int (2 ^ nat (bit_length x))"
    using hi by (simp only: of_int_less_iff)
  then show "real_of_int x < 2 powi bit_length x"
    using one by (simp add: power_int_nonneg_exp)
qed

lemma scaled_le_real:
  assumes "0 < d"
  shows "(if 0 \<le> e then d * 2 ^ nat e \<le> a else d \<le> a * 2 ^ nat (- e)) \<longleftrightarrow>
         real_of_int d * 2 powi e \<le> real_of_int a"
proof (cases "0 \<le> e")
  case True
  have "d * 2 ^ nat e \<le> a \<longleftrightarrow> real_of_int (d * 2 ^ nat e) \<le> real_of_int a"
    by (simp only: of_int_le_iff)
  then show ?thesis using True by (simp add: power_int_nonneg_exp)
next
  case False
  then have e: "e = - int (nat (- e))" by simp
  have p: "(2::real) powi e = 1 / 2 ^ nat (- e)"
    by (subst e) (simp only: power_int_minus_divide power_int_of_nat)
  have "d \<le> a * 2 ^ nat (- e) \<longleftrightarrow> real_of_int d \<le> real_of_int (a * 2 ^ nat (- e))"
    by (simp only: of_int_le_iff)
  also have "\<dots> \<longleftrightarrow> real_of_int d * 2 powi e \<le> real_of_int a"
    unfolding p by (simp add: field_simps)
  finally show ?thesis using False by simp
qed

lemma binade_bracket:
  assumes n: "n \<noteq> 0" and d: "0 < d"
  shows "real_of_int d * 2 powi binade n d \<le> \<bar>real_of_int n\<bar>"
    and "\<bar>real_of_int n\<bar> < real_of_int d * 2 powi (binade n d + 1)"
proof -
  define a where "a = \<bar>n\<bar>"
  define e where "e = bit_length a - bit_length d"
  have a: "0 < a" using n by (simp add: a_def)
  have ra: "\<bar>real_of_int n\<bar> = real_of_int a" by (simp add: a_def)
  note A = bit_length_real [OF a] and D = bit_length_real [OF d]
  have rd: "0 < real_of_int d" using d by simp
  have split1: "(2::real) powi bit_length a = 2 powi (e + 1) * 2 powi (bit_length d - 1)"
    by (simp add: e_def power_int_add [symmetric])
  have split2: "(2::real) powi bit_length d * 2 powi (e - 1) = 2 powi (bit_length a - 1)"
    by (simp add: e_def power_int_add [symmetric])
  have test: "binade n d = (if real_of_int d * 2 powi e \<le> real_of_int a then e else e - 1)"
    unfolding binade_def Let_def a_def [symmetric] e_def [symmetric]
    by (simp only: scaled_le_real [OF d])
  have up: "real_of_int a < real_of_int d * 2 powi (e + 1)"
  proof -
    have "real_of_int a < 2 powi (e + 1) * 2 powi (bit_length d - 1)"
      using A(2) split1 by simp
    also have "\<dots> \<le> 2 powi (e + 1) * real_of_int d"
      using D(1) by (intro mult_left_mono) simp_all
    finally show ?thesis by (simp add: mult.commute)
  qed
  have low: "real_of_int d * 2 powi (e - 1) \<le> real_of_int a"
  proof -
    have "real_of_int d * 2 powi (e - 1) \<le> 2 powi bit_length d * 2 powi (e - 1)"
      using D(2) by (intro mult_right_mono) simp_all
    also have "\<dots> \<le> real_of_int a" using A(1) split2 by simp
    finally show ?thesis .
  qed
  show "real_of_int d * 2 powi binade n d \<le> \<bar>real_of_int n\<bar>"
    unfolding ra test using low by simp
  show "\<bar>real_of_int n\<bar> < real_of_int d * 2 powi (binade n d + 1)"
    unfolding ra test using up by simp
qed


lemma nearest_double_accuracy:
  assumes n: "n \<noteq> 0" and d: "0 < d"
  shows "2 ^ 52 \<le> \<bar>fst (nearest_double n d s)\<bar> \<and> \<bar>fst (nearest_double n d s)\<bar> \<le> 2 ^ 53 \<and>
         \<bar>real_of_int n / real_of_int d * 2 powi s -
            real_of_int (fst (nearest_double n d s)) * 2 powi snd (nearest_double n d s)\<bar>
           \<le> 2 powi snd (nearest_double n d s) / 2"
proof -
  define e where "e = binade n d"
  define N where "N = (if e \<le> 52 then n * 2 ^ nat (52 - e) else n)"
  define D where "D = (if e \<le> 52 then d else d * 2 ^ nat (e - 52))"
  define m where "m = div_half_even N D"
  define x where "x = real_of_int N / real_of_int D"
  have nd: "nearest_double n d s = (m, e - 52 + s)"
    using n by (simp add: nearest_double_def e_def m_def N_def D_def Let_def)
  have Dpos: "0 < D" using d by (simp add: D_def)
  have rD: "0 < real_of_int D" using Dpos by simp
  have rd: "0 < real_of_int d" using d by simp
  have x: "x = real_of_int n / real_of_int d * 2 powi (52 - e)"
  proof (cases "e \<le> 52")
    case True
    then show ?thesis by (simp add: x_def N_def D_def power_int_nonneg_exp)
  next
    case False
    then have "52 - e = - int (nat (e - 52))" by simp
    then have "(2::real) powi (52 - e) = 1 / 2 ^ nat (e - 52)"
      by (simp only: power_int_minus_divide power_int_of_nat)
    then show ?thesis using False by (simp add: x_def N_def D_def)
  qed
  have "2 * \<bar>N - D * m\<bar> \<le> D" unfolding m_def using Dpos by (rule div_half_even_nearest)
  then have "real_of_int (2 * \<bar>N - D * m\<bar>) \<le> real_of_int D" by (simp only: of_int_le_iff)
  then have le: "2 * \<bar>real_of_int N - real_of_int D * real_of_int m\<bar> \<le> real_of_int D" by simp
  have eq: "x - real_of_int m = (real_of_int N - real_of_int D * real_of_int m) / real_of_int D"
    using rD by (simp add: x_def field_simps)
  have "\<bar>x - real_of_int m\<bar> = \<bar>(real_of_int N - real_of_int D * real_of_int m) / real_of_int D\<bar>"
    by (simp only: eq)
  also have "\<dots> = \<bar>real_of_int N - real_of_int D * real_of_int m\<bar> / real_of_int D"
    using rD by (simp only: abs_divide abs_of_pos)
  also have "\<dots> \<le> 1 / 2"
    using rD le by (simp add: pos_divide_le_eq)
  finally have half: "\<bar>x - real_of_int m\<bar> \<le> 1 / 2" .
  have scale: "0 < (2::real) powi (52 - e)" by simp
  have ax: "\<bar>x\<bar> = \<bar>real_of_int n\<bar> / real_of_int d * 2 powi (52 - e)"
    using rd by (simp add: x abs_mult)
  have "real_of_int d * 2 powi e \<le> \<bar>real_of_int n\<bar>"
    unfolding e_def using n d by (rule binade_bracket)
  then have "2 powi e \<le> \<bar>real_of_int n\<bar> / real_of_int d"
    using rd by (simp add: field_simps)
  then have "2 powi e * 2 powi (52 - e) \<le> \<bar>real_of_int n\<bar> / real_of_int d * 2 powi (52 - e)"
    using scale by (intro mult_right_mono) simp_all
  then have xlo: "2 ^ 52 \<le> \<bar>x\<bar>" by (simp add: ax power_int_add [symmetric])
  have "\<bar>real_of_int n\<bar> < real_of_int d * 2 powi (e + 1)"
    unfolding e_def using n d by (rule binade_bracket)
  then have "\<bar>real_of_int n\<bar> / real_of_int d < 2 powi (e + 1)"
    using rd by (simp add: field_simps)
  then have "\<bar>real_of_int n\<bar> / real_of_int d * 2 powi (52 - e) < 2 powi (e + 1) * 2 powi (52 - e)"
    using scale by (intro mult_strict_right_mono) simp_all
  then have xhi: "\<bar>x\<bar> < 2 ^ 53" by (simp add: ax power_int_add [symmetric])
  have "\<bar>\<bar>x\<bar> - \<bar>real_of_int m\<bar>\<bar> \<le> 1 / 2" using half by linarith
  then have "2 ^ 52 - 1 < \<bar>real_of_int m\<bar>" "\<bar>real_of_int m\<bar> < 2 ^ 53 + 1"
    using xlo xhi by linarith+
  then have "real_of_int (2 ^ 52 - 1) < real_of_int \<bar>m\<bar>" "real_of_int \<bar>m\<bar> < real_of_int (2 ^ 53 + 1)"
    by simp_all
  then have "2 ^ 52 - 1 < \<bar>m\<bar>" "\<bar>m\<bar> < 2 ^ 53 + 1" by (simp_all only: of_int_less_iff)
  then have mrange: "2 ^ 52 \<le> \<bar>m\<bar>" "\<bar>m\<bar> \<le> 2 ^ 53" by simp_all
  have "real_of_int n / real_of_int d * 2 powi s = x * 2 powi (e - 52 + s)"
    by (simp add: x power_int_add [symmetric] mult.assoc)
  then have "real_of_int n / real_of_int d * 2 powi s - real_of_int m * 2 powi (e - 52 + s) =
      (x - real_of_int m) * 2 powi (e - 52 + s)"
    by (simp add: algebra_simps)
  then have "\<bar>real_of_int n / real_of_int d * 2 powi s - real_of_int m * 2 powi (e - 52 + s)\<bar> =
      \<bar>x - real_of_int m\<bar> * 2 powi (e - 52 + s)"
    by (simp add: abs_mult)
  also have "\<dots> \<le> 1 / 2 * 2 powi (e - 52 + s)"
    using half by (intro mult_right_mono) simp_all
  finally have err: "\<bar>real_of_int n / real_of_int d * 2 powi s -
      real_of_int m * 2 powi (e - 52 + s)\<bar> \<le> 2 powi (e - 52 + s) / 2"
    by simp
  show ?thesis using mrange err by (simp add: nd)
qed

subsection \<open>The rate\<close>

lemma rate_of_0: "rate_of 0 = 0" by code_simp
lemma rate_of_1: "rate_of 1 = 20" by code_simp
lemma rate_of_2: "rate_of 2 = 40" by code_simp
lemma rate_of_3: "rate_of 3 = 60" by code_simp
lemma rate_of_4: "rate_of 4 = 80" by code_simp
lemma rate_of_5: "rate_of 5 = 100" by code_simp

text \<open>
  The arithmetic of the embedding is the machine's and not the exact one: the double
  nearest to \<open>7 / 100\<close> times \<open>100\<close> is \<open>7 + 2 ^ - 50\<close>, which Python prints as
  \<open>7.000000000000001\<close>.
\<close>

lemma inexact_product:
  "float_mul_int (int_truediv 7 100) 100 = (7881299347898369, - 50)"
  by code_simp

text \<open>
  C4. For every count of completed habits from 0 to 5 the rate the script computes
  in machine arithmetic is the integer nearest to the exact \<open>count / 5 * 100\<close>; the
  counts 0, 3 and 5 give the rates 0, 60 and 100.
\<close>

theorem rate_of_rounds:
  "(0 \<le> n \<and> n \<le> 5 \<longrightarrow> rate_of n = round (real_of_int n / 5 * 100)) \<and>
   rate_of 0 = 0 \<and> rate_of 3 = 60 \<and> rate_of 5 = 100"
proof -
  have "rate_of n = round (real_of_int n / 5 * 100)" if "0 \<le> n" "n \<le> 5"
  proof -
    from that have "n = 0 \<or> n = 1 \<or> n = 2 \<or> n = 3 \<or> n = 4 \<or> n = 5" by arith
    then show ?thesis
      by (elim disjE)
         (simp_all add: rate_of_0 rate_of_1 rate_of_2 rate_of_3 rate_of_4 rate_of_5)
  qed
  then show ?thesis by (simp add: rate_of_0 rate_of_3 rate_of_5)
qed

theorem rate_of_rounds_witness:
  "(0::int) \<le> 3 \<and> (3::int) \<le> 5 \<and> rate_of 3 = round (real_of_int 3 / 5 * 100)"
  using rate_of_rounds [of 3] by simp

section \<open>Strings and the breed of an image: properties\<close>

subsection \<open>Stripping white space\<close>

lemma strip_Nil_iff: "strip s = [] \<longleftrightarrow> (\<forall>c \<in> set s. is_space c)"
proof -
  let ?d = "dropWhile is_space s"
  have "strip s = [] \<longleftrightarrow> dropWhile is_space (rev ?d) = []"
    by (simp only: strip_def rev_is_Nil_conv)
  also have "\<dots> \<longleftrightarrow> (\<forall>c \<in> set ?d. is_space c)"
    by (simp only: dropWhile_eq_Nil_conv set_rev)
  also have "\<dots> \<longleftrightarrow> ?d = []"
  proof
    assume all: "\<forall>c \<in> set ?d. is_space c"
    show "?d = []"
    proof (rule ccontr)
      assume ne: "?d \<noteq> []"
      then have "\<not> is_space (hd ?d)" by (rule hd_dropWhile)
      moreover have "hd ?d \<in> set ?d" using ne by (rule hd_in_set)
      ultimately show False using all by blast
    qed
  next
    assume e: "?d = []"
    show "\<forall>c \<in> set ?d. is_space c" unfolding e by simp
  qed
  also have "\<dots> \<longleftrightarrow> (\<forall>c \<in> set s. is_space c)"
    by (simp add: dropWhile_eq_Nil_conv)
  finally show ?thesis .
qed

lemma strip_decompose:
  "\<exists>l r. s = l @ strip s @ r \<and> (\<forall>c \<in> set l. is_space c) \<and> (\<forall>c \<in> set r. is_space c)"
proof -
  let ?l = "takeWhile is_space s"
  let ?d = "dropWhile is_space s"
  let ?r = "rev (takeWhile is_space (rev ?d))"
  have "rev (takeWhile is_space (rev ?d) @ dropWhile is_space (rev ?d)) = rev (rev ?d)"
    by (simp only: takeWhile_dropWhile_id)
  then have d: "?d = strip s @ ?r"
    by (simp only: strip_def rev_append rev_rev_ident)
  have "s = ?l @ ?d" by simp
  then have "s = ?l @ strip s @ ?r" using d by simp
  moreover have "\<forall>c \<in> set ?l. is_space c" by (auto dest: set_takeWhileD)
  moreover have "\<forall>c \<in> set ?r. is_space c" by (auto dest: set_takeWhileD)
  ultimately show ?thesis by blast
qed

lemma strip_ends:
  assumes "strip s \<noteq> []"
  shows "\<not> is_space (hd (strip s)) \<and> \<not> is_space (last (strip s))"
proof -
  let ?d = "dropWhile is_space s"
  let ?e = "dropWhile is_space (rev ?d)"
  have s: "strip s = rev ?e" by (simp add: strip_def)
  then have ne: "?e \<noteq> []" using assms by simp
  then have "\<not> is_space (hd ?e)" by (rule hd_dropWhile)
  then have l: "\<not> is_space (last (strip s))" using ne by (simp add: s last_rev)
  have "rev (takeWhile is_space (rev ?d) @ ?e) = rev (rev ?d)"
    by (simp only: takeWhile_dropWhile_id)
  then have d: "?d = strip s @ rev (takeWhile is_space (rev ?d))"
    by (simp only: strip_def rev_append rev_rev_ident)
  then have "?d \<noteq> []" using assms by (metis Nil_is_append_conv)
  then have "\<not> is_space (hd ?d)" by (rule hd_dropWhile)
  moreover have "hd ?d = hd (strip s)" using d assms by (metis hd_append2)
  ultimately show ?thesis using l by simp
qed

subsection \<open>Searching the label\<close>

lemma match_breeds_here_iff:
  "match_breeds_here s = Some label \<longleftrightarrow> (\<exists>after. breeds_segment s [] label after)"
proof
  assume m: "match_breeds_here s = Some label"
  then have p: "take 8 s = pystr ''/breeds/''"
    by (simp add: match_breeds_here_def split: if_splits)
  from m p have l: "label = takeWhile (\<lambda>c. c \<noteq> 47) (drop 8 s)" "label \<noteq> []"
    and r: "dropWhile (\<lambda>c. c \<noteq> 47) (drop 8 s) \<noteq> []"
    by (auto simp: match_breeds_here_def Let_def split: if_splits)
  from r have "\<not> (hd (dropWhile (\<lambda>c. c \<noteq> 47) (drop 8 s)) \<noteq> 47)"
    by (rule hd_dropWhile)
  then obtain after where a: "dropWhile (\<lambda>c. c \<noteq> 47) (drop 8 s) = 47 # after"
    using r by (cases "dropWhile (\<lambda>c. c \<noteq> 47) (drop 8 s)") auto
  have "s = take 8 s @ drop 8 s" by simp
  also have "drop 8 s = label @ 47 # after"
    using l(1) a by (metis takeWhile_dropWhile_id)
  finally have "s = pystr ''/breeds/'' @ label @ [47] @ after" using p by simp
  moreover have "47 \<notin> set label" using l(1) by (auto dest: set_takeWhileD)
  ultimately show "\<exists>after. breeds_segment s [] label after"
    using l(2) by (auto simp: breeds_segment_def)
next
  assume "\<exists>after. breeds_segment s [] label after"
  then obtain after where s: "s = pystr ''/breeds/'' @ label @ 47 # after"
    and l: "label \<noteq> []" "47 \<notin> set label"
    by (auto simp: breeds_segment_def)
  have len: "length (pystr ''/breeds/'') = 8" by (simp add: pystr_def)
  have t: "take 8 s = pystr ''/breeds/''" using s len by simp
  have d: "drop 8 s = label @ 47 # after" using s len by simp
  have ne: "\<And>x. x \<in> set label \<Longrightarrow> x \<noteq> 47" using l(2) by blast
  have "takeWhile (\<lambda>c. c \<noteq> 47) (label @ 47 # after) = label"
    by (subst takeWhile_append2) (use ne in simp_all)
  moreover have "dropWhile (\<lambda>c. c \<noteq> 47) (label @ 47 # after) = 47 # after"
    by (subst dropWhile_append2) (use ne in simp_all)
  ultimately show "match_breeds_here s = Some label"
    using t d l(1) by (simp add: match_breeds_here_def)
qed

lemma breeds_segment_Nil: "\<not> breeds_segment [] before label after"
  by (simp add: breeds_segment_def pystr_def)

lemma breeds_segment_Cons:
  "breeds_segment (c # cs) (x # before) label after \<longleftrightarrow>
     x = c \<and> breeds_segment cs before label after"
  by (auto simp: breeds_segment_def)

lemma search_breeds_None:
  "search_breeds s = None \<longleftrightarrow> (\<forall>before label after. \<not> breeds_segment s before label after)"
proof (induction s)
  case Nil
  then show ?case by (simp add: breeds_segment_Nil)
next
  case (Cons c cs)
  show ?case
  proof (cases "match_breeds_here (c # cs)")
    case (Some label)
    then obtain after where "breeds_segment (c # cs) [] label after"
      using match_breeds_here_iff by blast
    then show ?thesis using Some by auto
  next
    case None
    then have no0: "\<not> breeds_segment (c # cs) [] label after" for label after
      using match_breeds_here_iff [of "c # cs" label] by simp
    have "(\<forall>before label after. \<not> breeds_segment (c # cs) before label after) \<longleftrightarrow>
          (\<forall>before label after. \<not> breeds_segment cs before label after)"
    proof
      assume a: "\<forall>before label after. \<not> breeds_segment (c # cs) before label after"
      show "\<forall>before label after. \<not> breeds_segment cs before label after"
      proof (intro allI)
        fix before label after
        from a have "\<not> breeds_segment (c # cs) (c # before) label after" by blast
        then show "\<not> breeds_segment cs before label after"
          by (simp add: breeds_segment_Cons)
      qed
    next
      assume a: "\<forall>before label after. \<not> breeds_segment cs before label after"
      show "\<forall>before label after. \<not> breeds_segment (c # cs) before label after"
      proof (intro allI)
        fix before label after
        show "\<not> breeds_segment (c # cs) before label after"
        proof (cases before)
          case Nil
          then show ?thesis using no0 by simp
        next
          case (Cons x bs)
          then show ?thesis using a by (simp add: breeds_segment_Cons)
        qed
      qed
    qed
    then show ?thesis using None Cons.IH by simp
  qed
qed

lemma search_breeds_Some:
  "search_breeds s = Some label \<Longrightarrow>
   \<exists>before after. breeds_segment s before label after \<and>
     (\<forall>before' label' after'. breeds_segment s before' label' after' \<longrightarrow>
        length before \<le> length before')"
proof (induction s)
  case Nil
  then show ?case by simp
next
  case (Cons c cs)
  show ?case
  proof (cases "match_breeds_here (c # cs)")
    case (Some l)
    then have "l = label" using Cons.prems by simp
    then obtain after where "breeds_segment (c # cs) [] label after"
      using Some match_breeds_here_iff by blast
    then show ?thesis by fastforce
  next
    case None
    then have no0: "\<not> breeds_segment (c # cs) [] l a" for l a
      using match_breeds_here_iff [of "c # cs" l] by simp
    from None Cons.prems have "search_breeds cs = Some label" by simp
    from Cons.IH [OF this] obtain before after where
      seg: "breeds_segment cs before label after" and
      least: "\<And>before' label' after'. breeds_segment cs before' label' after' \<Longrightarrow>
                length before \<le> length before'"
      by blast
    have "breeds_segment (c # cs) (c # before) label after"
      using seg by (simp add: breeds_segment_Cons)
    moreover have "length (c # before) \<le> length before'"
      if "breeds_segment (c # cs) before' label' after'" for before' label' after'
    proof (cases before')
      case Nil
      then show ?thesis using that no0 by simp
    next
      case (Cons x bs)
      then have "breeds_segment cs bs label' after'"
        using that by (simp add: breeds_segment_Cons)
      then show ?thesis using least Cons by fastforce
    qed
    ultimately show ?thesis by blast
  qed
qed

lemmas breed_eval = breed_of_url_def match_breeds_here_def pystr_def strip_def
  replace_hyphens_def is_space_def

text \<open>The example of the specification.\<close>

lemma breed_of_url_shiba:
  "breed_of_url (pystr ''.../breeds/shiba-inu/abc.jpg'') = pystr ''shiba inu''"
  by (simp add: breed_eval)

text \<open>
  C7, as the code has it. When the URL of the image has a \<open>/breeds/<label>/\<close>
  segment, the breed is derived from the first such segment (no other starts
  earlier): it is the label with every hyphen replaced by a space and the white space
  at both ends then stripped, and \<open>unknown\<close> when nothing is left. When the URL has
  no such segment the breed is \<open>unknown\<close>.
\<close>

theorem breed_of_url_segment:
  "((\<exists>before label after. breeds_segment img_url before label after) \<longrightarrow>
      (\<exists>before label after.
         breeds_segment img_url before label after \<and>
         (\<forall>before' label' after'. breeds_segment img_url before' label' after' \<longrightarrow>
            length before \<le> length before') \<and>
         breed_of_url img_url =
           (if strip (replace_hyphens label) = [] then pystr ''unknown''
            else strip (replace_hyphens label)))) \<and>
   (\<not> (\<exists>before label after. breeds_segment img_url before label after) \<longrightarrow>
      breed_of_url img_url = pystr ''unknown'')"
proof (cases "search_breeds img_url")
  case None
  then have "\<not> (\<exists>before label after. breeds_segment img_url before label after)"
    by (simp add: search_breeds_None)
  moreover have "breed_of_url img_url = pystr ''unknown''"
    using None by (simp add: breed_of_url_def)
  ultimately show ?thesis by blast
next
  case (Some label)
  from search_breeds_Some [OF this] obtain before after where
    seg: "breeds_segment img_url before label after" and
    least: "\<forall>before' label' after'. breeds_segment img_url before' label' after' \<longrightarrow>
              length before \<le> length before'"
    by blast
  have "breed_of_url img_url =
      (if strip (replace_hyphens label) = [] then pystr ''unknown''
       else strip (replace_hyphens label))"
    using Some by (simp add: breed_of_url_def)
  with seg least show ?thesis by blast
qed

theorem breed_of_url_segment_witness:
  "\<exists>before label after.
     breeds_segment (pystr ''/breeds/shiba-inu/abc.jpg'') before label after \<and>
     breed_of_url (pystr ''/breeds/shiba-inu/abc.jpg'') =
       (if strip (replace_hyphens label) = [] then pystr ''unknown''
        else strip (replace_hyphens label))"
proof -
  have "breeds_segment (pystr ''/breeds/shiba-inu/abc.jpg'') [] (pystr ''shiba-inu'')
          (pystr ''abc.jpg'')"
    by (simp add: breeds_segment_def pystr_def)
  then have "\<exists>before label after.
      breeds_segment (pystr ''/breeds/shiba-inu/abc.jpg'') before label after"
    by blast
  with breed_of_url_segment [of "pystr ''/breeds/shiba-inu/abc.jpg''"] show ?thesis
    by blast
qed

text \<open>
  C7 as it is worded gives the label with its hyphens replaced and nothing more. A
  label that ends with a hyphen ends with a space once the hyphens are replaced, and
  the client strips that space: for the label \<open>terrier-\<close> the breed is \<open>terrier\<close>,
  not \<open>terrier\<close> followed by a space.
\<close>

theorem breed_of_url_counterexample:
  "breeds_segment (pystr ''https://images.dog.ceo/breeds/terrier-/n02.jpg'')
     (pystr ''https://images.dog.ceo'') (pystr ''terrier-'') (pystr ''n02.jpg'') \<and>
   replace_hyphens (pystr ''terrier-'') = pystr ''terrier '' \<and>
   breed_of_url (pystr ''https://images.dog.ceo/breeds/terrier-/n02.jpg'') = pystr ''terrier'' \<and>
   pystr ''terrier'' \<noteq> pystr ''terrier ''"
  by (simp add: breed_eval breeds_segment_def)

section \<open>The clients of the remote services: properties\<close>

lemma bind_Inr:
  "bind x f = Inr v \<Longrightarrow> (\<And>a. x = Inr a \<Longrightarrow> f a = Inr v \<Longrightarrow> thesis) \<Longrightarrow> thesis"
  by (cases x) (simp_all add: bind_def)

lemma weather_try_city:
  assumes "weather_try c reply = Inr (Some w)"
  shows "city w = c"
proof (cases reply)
  case Raised
  then show ?thesis using assms by (simp add: weather_try_def)
next
  case (Response status body)
  show ?thesis
  proof (cases body)
    case None
    then show ?thesis using assms Response
      by (simp add: weather_try_def split: if_splits)
  next
    case (Some data)
    then show ?thesis using assms Response
      by (auto simp: weather_try_def Let_def split: if_splits elim!: bind_Inr)
  qed
qed

lemma except_none_Some: "except_none x = Some v \<longleftrightarrow> x = Inr (Some v)"
  by (cases x) (simp_all add: except_none_def)

lemma get_weather_city: "fst (get_weather net c k) = Some w \<Longrightarrow> city w = c"
  by (auto simp: get_weather_def except_none_Some split: if_splits dest: weather_try_city)

lemma get_weather_all_absent:
  assumes "k \<noteq> []" and "net (weather_request c k) = Response 200 (Some (JDict []))"
  shows "fst (get_weather net c k) =
     Some \<lparr>city = c, description = JNull, temp = JNull, feels_like = JNull, humidity = JNull\<rparr>"
  using assms
  by (simp add: get_weather_def weather_try_def bind_def py_or_def except_none_def)

lemma get_weather_failed:
  assumes "net (weather_request c k) = Raised \<or>
           (\<exists>s b. net (weather_request c k) = Response s b \<and> s \<noteq> 200) \<or>
           (\<exists>s. net (weather_request c k) = Response s None)"
  shows "fst (get_weather net c k) = None"
  using assms by (auto simp: get_weather_def weather_try_def except_none_def)

lemma dog_try_failed:
  assumes "reply = Raised \<or>
           (\<exists>s b. reply = Response s b \<and> s \<noteq> 200) \<or>
           (\<exists>s. reply = Response s None) \<or>
           (\<exists>s data. reply = Response s (Some data) \<and>
              py_get data (pystr ''status'') \<noteq> Inr (JStr (pystr ''success''))) \<or>
           (\<exists>s data v. reply = Response s (Some data) \<and>
              py_get data (pystr ''message'') = Inr v \<and> \<not> truthy v)"
  shows "except_none (dog_try reply) = None"
proof (cases reply)
  case Raised
  then show ?thesis by (simp add: dog_try_def except_none_def)
next
  case (Response status body)
  show ?thesis
  proof (cases "status = 200")
    case False
    then show ?thesis using Response by (simp add: dog_try_def except_none_def)
  next
    case True
    show ?thesis
    proof (cases body)
      case None
      then show ?thesis using Response True by (simp add: dog_try_def except_none_def)
    next
      case (Some data)
      from assms Response True Some
      consider "py_get data (pystr ''status'') \<noteq> Inr (JStr (pystr ''success''))"
        | v where "py_get data (pystr ''message'') = Inr v" "\<not> truthy v"
        by auto
      then show ?thesis
      proof cases
        case 1
        then show ?thesis using Response True Some
          by (cases "py_get data (pystr ''status'')")
             (simp_all add: dog_try_def except_none_def bind_def)
      next
        case 2
        then show ?thesis using Response True Some
          by (cases "py_get data (pystr ''status'')")
             (simp_all add: dog_try_def except_none_def bind_def)
      qed
    qed
  qed
qed

text \<open>
  C5. When the request raises, when the status of the reply is not 200 or when the
  body of the reply cannot be decoded, the weather client and the image client return
  \<open>None\<close>; so does the image client when the \<open>status\<close> of the decoded body is not the
  string \<open>success\<close> (or the body is no dictionary) and when its \<open>message\<close> is missing,
  \<open>None\<close> or empty. Every exception of the clients is raised inside their \<open>try\<close>
  block, whose handler returns \<open>None\<close>: whatever exception \<open>e\<close> the block raises,
  the client returns \<open>None\<close>, and the clients are total functions into \<open>option\<close>.
\<close>

theorem clients_absent_on_failure:
  "(net (weather_request c k) = Raised \<longrightarrow> fst (get_weather net c k) = None) \<and>
   (net (weather_request c k) = Response s b \<and> s \<noteq> 200 \<longrightarrow> fst (get_weather net c k) = None) \<and>
   (net (weather_request c k) = Response s None \<longrightarrow> fst (get_weather net c k) = None) \<and>
   (net dog_request = Raised \<longrightarrow> fst (get_dog_image net) = None) \<and>
   (net dog_request = Response s b \<and> s \<noteq> 200 \<longrightarrow> fst (get_dog_image net) = None) \<and>
   (net dog_request = Response s None \<longrightarrow> fst (get_dog_image net) = None) \<and>
   (net dog_request = Response s (Some data) \<and>
      py_get data (pystr ''status'') \<noteq> Inr (JStr (pystr ''success'')) \<longrightarrow>
      fst (get_dog_image net) = None) \<and>
   (net dog_request = Response s (Some data) \<and>
      py_get data (pystr ''message'') = Inr v \<and> \<not> truthy v \<longrightarrow>
      fst (get_dog_image net) = None) \<and>
   (weather_try c (net (weather_request c k)) = Inl e \<longrightarrow> fst (get_weather net c k) = None) \<and>
   (dog_try (net dog_request) = Inl e \<longrightarrow> fst (get_dog_image net) = None)"
proof -
  have we: "fst (get_weather net c k) = None"
    if "weather_try c (net (weather_request c k)) = Inl e"
    using that by (simp add: get_weather_def except_none_def)
  have de: "fst (get_dog_image net) = None" if "dog_try (net dog_request) = Inl e"
    using that by (simp add: get_dog_image_def except_none_def)
  have w: "fst (get_weather net c k) = None"
    if "net (weather_request c k) = Raised \<or>
        (\<exists>s b. net (weather_request c k) = Response s b \<and> s \<noteq> 200) \<or>
        (\<exists>s. net (weather_request c k) = Response s None)"
    using that by (rule get_weather_failed)
  have d: "fst (get_dog_image net) = None"
    if "net dog_request = Raised \<or>
        (\<exists>s b. net dog_request = Response s b \<and> s \<noteq> 200) \<or>
        (\<exists>s. net dog_request = Response s None) \<or>
        (\<exists>s data. net dog_request = Response s (Some data) \<and>
           py_get data (pystr ''status'') \<noteq> Inr (JStr (pystr ''success''))) \<or>
        (\<exists>s data v. net dog_request = Response s (Some data) \<and>
           py_get data (pystr ''message'') = Inr v \<and> \<not> truthy v)"
    using dog_try_failed [OF that] by (simp add: get_dog_image_def)
  show ?thesis
    using w d we de by blast
qed

theorem clients_absent_on_failure_witness:
  "fst (get_weather (\<lambda>_. Response 500 None) (pystr ''Seoul'') (pystr ''key'')) = None \<and>
   fst (get_dog_image (\<lambda>_. Response 200
      (Some (JDict [(pystr ''status'', JStr (pystr ''error''))])))) = None"
proof -
  have "fst (get_weather (\<lambda>_. Response 500 None) (pystr ''Seoul'') (pystr ''key'')) = None"
    using clients_absent_on_failure
      [of "\<lambda>_. Response 500 None" "pystr ''Seoul''" "pystr ''key''" 500 None]
    by simp
  moreover have "fst (get_dog_image (\<lambda>_. Response 200
      (Some (JDict [(pystr ''status'', JStr (pystr ''error''))])))) = None"
    using clients_absent_on_failure
      [of "\<lambda>_. Response 200 (Some (JDict [(pystr ''status'', JStr (pystr ''error''))]))"
          _ _ 200 _ "JDict [(pystr ''status'', JStr (pystr ''error''))]"]
    by (simp add: pystr_def)
  ultimately show ?thesis by blast
qed

text \<open>
  C6. With an empty credential the weather client and the report generator return
  \<open>None\<close> and issue no request.
\<close>

theorem empty_credential_no_request:
  "get_weather net c [] = (None, []) \<and>
   generate_report llm coach_system_prompt user_msg [] coach_style date_str c mood_score
     habits_checked weather dog = (None, [])"
  by (simp add: get_weather_def generate_report_def)

text \<open>
  C8. With a credential, when the service returns a text, the report is \<open>None\<close> if
  the text is empty or all white space; otherwise it is the text without the white
  space at its two ends: what is cut off on either side is white space only, and the
  report starts and ends with a code point that is no white space.
\<close>

theorem generate_report_trims:
  assumes "openai_api_key \<noteq> []"
    and "llm (report_request coach_system_prompt user_msg openai_api_key coach_style date_str c
           mood_score habits_checked weather dog) = LlmResponse (Some out)"
  shows "((\<forall>ch \<in> set out. is_space ch) \<longrightarrow>
            fst (generate_report llm coach_system_prompt user_msg openai_api_key coach_style
                   date_str c mood_score habits_checked weather dog) = None) \<and>
         (\<not> (\<forall>ch \<in> set out. is_space ch) \<longrightarrow>
            fst (generate_report llm coach_system_prompt user_msg openai_api_key coach_style
                   date_str c mood_score habits_checked weather dog) = Some (strip out) \<and>
            strip out \<noteq> [] \<and> \<not> is_space (hd (strip out)) \<and> \<not> is_space (last (strip out)) \<and>
            (\<exists>l r. out = l @ strip out @ r \<and>
                   (\<forall>ch \<in> set l. is_space ch) \<and> (\<forall>ch \<in> set r. is_space ch)))"
proof -
  have res: "fst (generate_report llm coach_system_prompt user_msg openai_api_key coach_style
                   date_str c mood_score habits_checked weather dog) =
             (if strip out \<noteq> [] then Some (strip out) else None)"
    using assms
    by (simp add: generate_report_def report_try_def except_none_def str_or_empty_def Let_def)
  show ?thesis
  proof (cases "\<forall>ch \<in> set out. is_space ch")
    case True
    then have "strip out = []" by (simp add: strip_Nil_iff)
    then show ?thesis using True res by simp
  next
    case False
    then have ne: "strip out \<noteq> []" by (simp add: strip_Nil_iff)
    then show ?thesis
      using False res strip_ends [OF ne] strip_decompose [of out] by simp
  qed
qed

theorem generate_report_trims_witness:
  "fst (generate_report (\<lambda>_. LlmResponse (Some (pystr '' Grade A ''))) (\<lambda>_. [])
          (\<lambda>_ _ _ _ _ _. []) (pystr ''key'') [] [] [] 8 [] None None) =
     Some (strip (pystr '' Grade A '')) \<and>
   strip (pystr '' Grade A '') = pystr ''Grade A''"
proof -
  have k: "pystr ''key'' \<noteq> []" by (simp add: pystr_def)
  have n: "\<not> (\<forall>ch \<in> set (pystr '' Grade A ''). is_space ch)"
    by (simp add: pystr_def is_space_def)
  have s: "strip (pystr '' Grade A '') = pystr ''Grade A''"
    by (simp add: pystr_def strip_def is_space_def)
  from generate_report_trims [of "pystr ''key''" "\<lambda>_. LlmResponse (Some (pystr '' Grade A ''))",
      OF k refl] n s
  show ?thesis by blast
qed

text \<open>
  C10. Whenever the weather client returns a snapshot, the city of the snapshot is the
  city it was called with; it does so even when the decoded body is an empty
  dictionary, and then every other field of the snapshot is \<open>None\<close>.
\<close>

theorem get_weather_city_verbatim:
  "(fst (get_weather net c k) = Some w \<longrightarrow> city w = c) \<and>
   (k \<noteq> [] \<and> net (weather_request c k) = Response 200 (Some (JDict [])) \<longrightarrow>
      fst (get_weather net c k) =
        Some \<lparr>city = c, description = JNull, temp = JNull, feels_like = JNull,
              humidity = JNull\<rparr>)"
  using get_weather_city [of net c k w] get_weather_all_absent [of k net c] by blast

theorem get_weather_city_verbatim_witness:
  "fst (get_weather (\<lambda>_. Response 200 (Some (JDict []))) (pystr ''Seoul'') (pystr ''key'')) =
     Some \<lparr>city = pystr ''Seoul'', description = JNull, temp = JNull, feels_like = JNull,
           humidity = JNull\<rparr>"
proof -
  have k: "pystr ''key'' \<noteq> []" by (simp add: pystr_def)
  from get_weather_city_verbatim
    [of "\<lambda>_. Response 200 (Some (JDict []))" "pystr ''Seoul''" "pystr ''key''"] k
  show ?thesis by simp
qed

end
